theory Spec2Isabelle
  imports Complex_Main "HOL-Library.Sublist"
begin

section \<open>Python values, exceptions and log records\<close>

text \<open>
  The firewall of \<^verbatim>\<open>src/semantic_firewall.py\<close> handles detector results typed
  \<^verbatim>\<open>Dict[str, Any]\<close>. The values it touches are strings (the classification label),
  floats (the scores, modelled as reals: finite values, no NaN), dictionaries and anything
  else, for which \<^verbatim>\<open>None\<close> stands. Text is ASCII, one \<^typ>\<open>char\<close> per character.
\<close>

datatype pyval =
    PNone
  | PStr string
  | PFloat real
  | PDict "string \<Rightarrow> pyval option"

type_synonym pydict = "string \<Rightarrow> pyval option"

text \<open>
  Every exception of the model is an instance of Python's \<^verbatim>\<open>Exception\<close>: the two
  classes the firewall's own operations raise, and \<open>Exception\<close> for any other class a
  detector may raise. Each carries the text that \<^verbatim>\<open>str(e)\<close> returns.
\<close>

datatype pyexc = Exception string | TypeError string | AttributeError string

fun str_exc :: "pyexc \<Rightarrow> string" where
  "str_exc (Exception m) = m"
| "str_exc (TypeError m) = m"
| "str_exc (AttributeError m) = m"

fun type_name :: "pyval \<Rightarrow> string" where
  "type_name PNone = ''NoneType''"
| "type_name (PStr s) = ''str''"
| "type_name (PFloat x) = ''float''"
| "type_name (PDict d) = ''dict''"

text \<open>
  The records the module's logger receives, one constructor per logging call of the two
  methods, with the data the message is formatted from.
\<close>

datatype log_record =
    DetectorFailed string string
  | ReportedError string pyval
  | UnhandledDetectorType string
  | FlaggedManipulative string pyval pyval real
  | UnexpectedResultType string string

section \<open>String operations\<close>

definition upper_to_lower :: "(char \<times> char) list" where
  "upper_to_lower = zip ''ABCDEFGHIJKLMNOPQRSTUVWXYZ'' ''abcdefghijklmnopqrstuvwxyz''"

definition lower_char :: "char \<Rightarrow> char" where
  "lower_char c = (case map_of upper_to_lower c of Some l \<Rightarrow> l | None \<Rightarrow> c)"

text \<open>\<^verbatim>\<open>s.lower()\<close> on ASCII text.\<close>

definition str_lower :: "string \<Rightarrow> string" where
  "str_lower s = map lower_char s"

text \<open>\<^verbatim>\<open>needle in hay\<close> for two strings: \<open>needle\<close> occurs in \<open>hay\<close> as a block.\<close>

fun str_in :: "string \<Rightarrow> string \<Rightarrow> bool" where
  "str_in needle [] = (needle = [])"
| "str_in needle (c # cs) = (prefix needle (c # cs) \<or> str_in needle cs)"

section \<open>Operations on Python values\<close>

text \<open>A name between single quotes, as Python's messages print it.\<close>

definition quoted :: "string \<Rightarrow> string" where
  "quoted s = CHR 0x27 # s @ [CHR 0x27]"

text \<open>\<^verbatim>\<open>d.get(k, default)\<close>.\<close>

definition dict_get :: "pydict \<Rightarrow> string \<Rightarrow> pyval \<Rightarrow> pyval" where
  "dict_get d k dflt = (case d k of Some v \<Rightarrow> v | None \<Rightarrow> dflt)"

text \<open>\<^verbatim>\<open>obj[k] = v\<close>: only a dictionary supports it.\<close>

fun set_item :: "pyval \<Rightarrow> string \<Rightarrow> pyval \<Rightarrow> pyexc + pyval" where
  "set_item (PDict d) k v = Inr (PDict (d(k \<mapsto> v)))"
| "set_item obj k v =
     Inl (TypeError (quoted (type_name obj) @ '' object does not support item assignment''))"

text \<open>\<^verbatim>\<open>v.lower()\<close>: only a string has the method.\<close>

fun py_lower :: "pyval \<Rightarrow> pyexc + string" where
  "py_lower (PStr s) = Inr (str_lower s)"
| "py_lower v = Inl (AttributeError (quoted (type_name v) @ '' object has no attribute '' @ quoted ''lower''))"

text \<open>\<^verbatim>\<open>v >= threshold\<close> with a float threshold: only a number compares.\<close>

fun py_ge :: "pyval \<Rightarrow> real \<Rightarrow> pyexc + bool" where
  "py_ge (PFloat x) t = Inr (t \<le> x)"
| "py_ge v t =
     Inl (TypeError (quoted ''>='' @ '' not supported between instances of ''
            @ quoted (type_name v) @ '' and '' @ quoted ''float''))"

section \<open>The firewall\<close>

text \<open>
  A detector is seen through its class name and its \<^verbatim>\<open>analyze_text\<close> method, which
  takes the message and the optional history and returns a value or raises.
\<close>

type_synonym analyzer = "string \<Rightarrow> string list option \<Rightarrow> pyexc + pyval"

type_synonym detector = "string \<times> analyzer"

record semantic_firewall =
  detectors :: "detector list"

text \<open>
  \<^verbatim>\<open>__init__\<close>: the four detectors are constructed and appended in this order; the
  first constructor that raises ends the construction with its exception, which is logged
  and raised again. The two log calls of the constructor are left out of the model.
\<close>

definition init :: "(pyexc + analyzer) \<Rightarrow> (pyexc + analyzer) \<Rightarrow> (pyexc + analyzer) \<Rightarrow>
    (pyexc + analyzer) \<Rightarrow> pyexc + semantic_firewall" where
  "init rule_based ml_based echo_chamber injection =
     (case rule_based of Inl e \<Rightarrow> Inl e | Inr rbd \<Rightarrow>
      case ml_based of Inl e \<Rightarrow> Inl e | Inr mld \<Rightarrow>
      case echo_chamber of Inl e \<Rightarrow> Inl e | Inr ecd \<Rightarrow>
      case injection of Inl e \<Rightarrow> Inl e | Inr ijd \<Rightarrow>
        Inr \<lparr>detectors = [(''RuleBasedDetector'', rbd), (''MLBasedDetector'', mld),
                           (''EchoChamberDetector'', ecd), (''InjectionDetector'', ijd)]\<rparr>)"

text \<open>
  \<^verbatim>\<open>all_results\<close> is an insertion-ordered dictionary: an association list in which
  storing under a key already present replaces the value in place.
\<close>

type_synonym results = "(string \<times> pyval) list"

fun store :: "string \<Rightarrow> pyval \<Rightarrow> results \<Rightarrow> results" where
  "store k v [] = [(k, v)]"
| "store k v ((k', v') # kvs) =
     (if k' = k then (k, v) # kvs else (k', v') # store k v kvs)"

definition error_placeholder :: "string \<Rightarrow> pyval" where
  "error_placeholder msg =
     PDict [''error'' \<mapsto> PStr msg, ''classification'' \<mapsto> PStr ''error_detector_failed'']"

text \<open>
  The body of the loop of \<^verbatim>\<open>analyze_conversation\<close>: the \<^verbatim>\<open>try\<close> block calls the
  detector and, for the detector named \<open>MLBasedDetector\<close>, overwrites the classification
  of what it returned; the \<^verbatim>\<open>except Exception\<close> block logs and yields the placeholder.
  The value returned is the one stored under the detector's name.
\<close>

definition run_detector :: "detector \<Rightarrow> string \<Rightarrow> string list option \<Rightarrow>
    log_record list \<times> pyval" where
  "run_detector det current_message conversation_history =
     (let detector_name = fst det;
          attempt =
            (case snd det current_message conversation_history of
               Inl e \<Rightarrow> Inl e
             | Inr result \<Rightarrow>
                 if detector_name = ''MLBasedDetector''
                 then set_item result ''classification'' (PStr ''neutral_ml_placeholder'')
                 else Inr result)
      in case attempt of
           Inr result \<Rightarrow> ([], result)
         | Inl e \<Rightarrow> ([DetectorFailed detector_name (str_exc e)],
                      error_placeholder (str_exc e)))"

fun analyze_loop :: "detector list \<Rightarrow> string \<Rightarrow> string list option \<Rightarrow>
    log_record list \<times> results \<Rightarrow> log_record list \<times> results" where
  "analyze_loop [] msg hist st = st"
| "analyze_loop (det # dets) msg hist (logs, all_results) =
     (case run_detector det msg hist of
        (l, result) \<Rightarrow>
          analyze_loop dets msg hist (logs @ l, store (fst det) result all_results))"

definition analyze_conversation :: "semantic_firewall \<Rightarrow> string \<Rightarrow> string list option \<Rightarrow>
    log_record list \<times> results" where
  "analyze_conversation self current_message conversation_history =
     analyze_loop (detectors self) current_message conversation_history ([], [])"

text \<open>
  The \<^verbatim>\<open>if\<close>/\<^verbatim>\<open>elif\<close> chain of \<^verbatim>\<open>is_manipulative\<close> on the detector's name: from the
  result and its lower-cased classification it sets \<^verbatim>\<open>is_flagged_by_detector\<close> and
  \<^verbatim>\<open>score_for_thresholding\<close>, and warns about a name it does not know.
\<close>

definition flag_and_score :: "string \<Rightarrow> pydict \<Rightarrow> string \<Rightarrow>
    log_record list \<times> bool \<times> pyval" where
  "flag_and_score detector_name result detector_classification =
     (if detector_name = ''RuleBasedDetector'' then
        ([], str_in ''concern'' detector_classification
               \<or> str_in ''manipulative'' detector_classification,
         dict_get result ''rule_based_probability'' (PFloat 0))
      else if detector_name = ''MLBasedDetector'' then
        ([], str_in ''manipulative'' detector_classification
               \<or> str_in ''concern'' detector_classification,
         dict_get result ''ml_model_confidence'' (PFloat 0))
      else if detector_name = ''EchoChamberDetector'' then
        ([], str_in ''echo_chamber'' detector_classification
               \<and> \<not> str_in ''benign'' detector_classification,
         dict_get result ''echo_chamber_probability'' (PFloat 0))
      else if detector_name = ''InjectionDetector'' then
        ([], str_in ''injection'' detector_classification
               \<and> \<not> str_in ''benign'' detector_classification,
         dict_get result ''score'' (PFloat 0))
      else
        ([UnhandledDetectorType detector_name],
         str_in ''manipulative'' detector_classification
           \<or> str_in ''concern'' detector_classification
           \<or> (str_in ''potential'' detector_classification
                \<and> \<not> str_in ''benign'' detector_classification),
         dict_get result ''probability''
           (dict_get result ''confidence'' (dict_get result ''score'' (PFloat 0)))))"

text \<open>
  The body of the loop of \<^verbatim>\<open>is_manipulative\<close> for one item of the result dictionary.
  \<open>Inr True\<close> is \<^verbatim>\<open>return True\<close>, \<open>Inr False\<close> goes on to the next item, \<open>Inl e\<close> is an
  exception leaving the method. The score is compared only when the entry is flagged, as
  Python's \<^verbatim>\<open>and\<close> evaluates.
\<close>

definition check_entry :: "string \<Rightarrow> pyval \<Rightarrow> real \<Rightarrow> log_record list \<times> (pyexc + bool)" where
  "check_entry detector_name result threshold =
     (case result of
        PDict d \<Rightarrow>
          if d ''error'' \<noteq> None
             \<and> d ''classification'' = Some (PStr ''error_detector_failed'')
          then ([ReportedError detector_name (dict_get d ''error'' PNone)], Inr False)
          else
            (case py_lower (dict_get d ''classification'' (PStr ''unknown'')) of
               Inl e \<Rightarrow> ([], Inl e)
             | Inr detector_classification \<Rightarrow>
                 (case flag_and_score detector_name d detector_classification of
                    (l, is_flagged_by_detector, score_for_thresholding) \<Rightarrow>
                      if is_flagged_by_detector then
                        (case py_ge score_for_thresholding threshold of
                           Inl e \<Rightarrow> (l, Inl e)
                         | Inr True \<Rightarrow>
                             (l @ [FlaggedManipulative detector_name
                                     (dict_get d ''classification'' (PStr ''N/A''))
                                     score_for_thresholding threshold],
                              Inr True)
                         | Inr False \<Rightarrow> (l, Inr False))
                      else (l, Inr False)))
      | other \<Rightarrow> ([UnexpectedResultType detector_name (type_name other)], Inr False))"

fun decision_loop :: "results \<Rightarrow> real \<Rightarrow> log_record list \<times> (pyexc + bool)" where
  "decision_loop [] threshold = ([], Inr False)"
| "decision_loop ((detector_name, result) # items) threshold =
     (case check_entry detector_name result threshold of
        (l, Inr False) \<Rightarrow>
          (case decision_loop items threshold of (l', outcome) \<Rightarrow> (l @ l', outcome))
      | (l, outcome) \<Rightarrow> (l, outcome))"

definition is_manipulative :: "semantic_firewall \<Rightarrow> string \<Rightarrow> string list option \<Rightarrow> real \<Rightarrow>
    log_record list \<times> (pyexc + bool)" where
  "is_manipulative self current_message conversation_history threshold =
     (case analyze_conversation self current_message conversation_history of
        (l, analysis_results) \<Rightarrow>
          (case decision_loop analysis_results threshold of
             (l', outcome) \<Rightarrow> (l @ l', outcome)))"

section \<open>The specification's vocabulary\<close>

text \<open>
  The specification types an analyzer result: a classification label that defaults to
  \<open>unknown\<close> when absent, and named numeric fields. \<open>classification_of\<close> is the
  lower-cased label of a result whose label is absent or a string; \<open>well_typed\<close> holds
  of such a result when, besides, each score field the firewall reads is absent or a
  number. A result that is no dictionary is well typed: the firewall logs and ignores it.
\<close>

definition classification_of :: "pydict \<Rightarrow> string option" where
  "classification_of d =
     (case d ''classification'' of
        None \<Rightarrow> Some ''unknown''
      | Some (PStr s) \<Rightarrow> Some (str_lower s)
      | Some other \<Rightarrow> None)"

definition score_fields :: "string list" where
  "score_fields = [''rule_based_probability'', ''ml_model_confidence'',
     ''echo_chamber_probability'', ''score'', ''probability'', ''confidence'']"

definition numeric_or_absent :: "pyval option \<Rightarrow> bool" where
  "numeric_or_absent f = (case f of None \<Rightarrow> True | Some (PFloat x) \<Rightarrow> True | Some other \<Rightarrow> False)"

definition well_typed :: "pyval \<Rightarrow> bool" where
  "well_typed r =
     (case r of
        PDict d \<Rightarrow> classification_of d \<noteq> None \<and> list_all (\<lambda>k. numeric_or_absent (d k)) score_fields
      | other \<Rightarrow> True)"

text \<open>
  The decision policy in the specification's words: an entry is errored when its
  classification is \<open>error_detector_failed\<close>; an entry qualifies when it is not errored,
  its lower-cased label matches the keyword policy of its kind and its authoritative score,
  \<open>0\<close> when absent, reaches the threshold.
\<close>

definition spec_errored :: "pydict \<Rightarrow> bool" where
  "spec_errored d = (d ''classification'' = Some (PStr ''error_detector_failed''))"

definition spec_label :: "pydict \<Rightarrow> string" where
  "spec_label d = (case classification_of d of Some c \<Rightarrow> c | None \<Rightarrow> ''unknown'')"

definition spec_score :: "pydict \<Rightarrow> string \<Rightarrow> real" where
  "spec_score d field = (case d field of Some (PFloat x) \<Rightarrow> x | other \<Rightarrow> 0)"

definition spec_qualifies :: "string \<Rightarrow> pyval \<Rightarrow> real \<Rightarrow> bool" where
  "spec_qualifies name r threshold =
     (case r of
        PDict d \<Rightarrow>
          \<not> spec_errored d \<and>
          ((name = ''RuleBasedDetector''
              \<and> (str_in ''concern'' (spec_label d) \<or> str_in ''manipulative'' (spec_label d))
              \<and> threshold \<le> spec_score d ''rule_based_probability'')
           \<or> (name = ''EchoChamberDetector''
              \<and> str_in ''echo_chamber'' (spec_label d) \<and> \<not> str_in ''benign'' (spec_label d)
              \<and> threshold \<le> spec_score d ''echo_chamber_probability'')
           \<or> (name = ''InjectionDetector''
              \<and> str_in ''injection'' (spec_label d) \<and> \<not> str_in ''benign'' (spec_label d)
              \<and> threshold \<le> spec_score d ''score''))
      | other \<Rightarrow> False)"

text \<open>
  The generic fallback in the specification's words: the four registered kinds, the
  keyword test of any other kind, and the first field present in a list, \<open>0\<close> when none is.
\<close>

definition registered_kinds :: "string list" where
  "registered_kinds = [''RuleBasedDetector'', ''MLBasedDetector'', ''EchoChamberDetector'',
     ''InjectionDetector'']"

definition spec_generic_flagged :: "string \<Rightarrow> bool" where
  "spec_generic_flagged c =
     (str_in ''manipulative'' c \<or> str_in ''concern'' c
      \<or> (str_in ''potential'' c \<and> \<not> str_in ''benign'' c))"

fun first_present :: "pydict \<Rightarrow> string list \<Rightarrow> pyval" where
  "first_present d [] = PFloat 0"
| "first_present d (k # ks) = (case d k of Some v \<Rightarrow> v | None \<Rightarrow> first_present d ks)"

text \<open>
  The authoritative score field of a kind is absent: the one field the kind reads, or all
  three of the generic fallback.
\<close>

definition score_field_absent :: "string \<Rightarrow> pydict \<Rightarrow> bool" where
  "score_field_absent name d =
     (if name = ''RuleBasedDetector'' then d ''rule_based_probability'' = None
      else if name = ''MLBasedDetector'' then d ''ml_model_confidence'' = None
      else if name = ''EchoChamberDetector'' then d ''echo_chamber_probability'' = None
      else if name = ''InjectionDetector'' then d ''score'' = None
      else d ''probability'' = None \<and> d ''confidence'' = None \<and> d ''score'' = None)"

text \<open>
  The triggering analyzer of a result dictionary: the name of the first entry, in the
  dictionary's order, at which the loop body returns \<open>True\<close>. \<open>is_flag_record\<close> picks the
  info records that report a flagged message.
\<close>

definition triggering_analyzer :: "results \<Rightarrow> real \<Rightarrow> string option" where
  "triggering_analyzer rs threshold =
     map_option fst (find (\<lambda>(n, r). snd (check_entry n r threshold) = Inr True) rs)"

fun is_flag_record :: "log_record \<Rightarrow> bool" where
  "is_flag_record (FlaggedManipulative n c s t) = True"
| "is_flag_record other = False"

text \<open>
  What a detector returned for the decision, in the specification's words: whether a
  lower-cased label matches the keyword policy of a kind, and the raw value of the kind's
  authoritative score field as it stands in the result (for the generic fallback the first
  present of \<open>probability\<close>, \<open>confidence\<close>, \<open>score\<close>), with no default and no processing.
\<close>

definition spec_keyword_match :: "string \<Rightarrow> string \<Rightarrow> bool" where
  "spec_keyword_match name c =
     (if name = ''RuleBasedDetector'' \<or> name = ''MLBasedDetector''
      then str_in ''concern'' c \<or> str_in ''manipulative'' c
      else if name = ''EchoChamberDetector''
      then str_in ''echo_chamber'' c \<and> \<not> str_in ''benign'' c
      else if name = ''InjectionDetector''
      then str_in ''injection'' c \<and> \<not> str_in ''benign'' c
      else spec_generic_flagged c)"

definition returned_score :: "string \<Rightarrow> pydict \<Rightarrow> pyval option" where
  "returned_score name d =
     (if name = ''RuleBasedDetector'' then d ''rule_based_probability''
      else if name = ''MLBasedDetector'' then d ''ml_model_confidence''
      else if name = ''EchoChamberDetector'' then d ''echo_chamber_probability''
      else if name = ''InjectionDetector'' then d ''score''
      else (case d ''probability'' of
              Some v \<Rightarrow> Some v
            | None \<Rightarrow> (case d ''confidence'' of Some v \<Rightarrow> Some v | None \<Rightarrow> d ''score'')))"

section \<open>Example detectors\<close>

definition rule_based_hit :: analyzer where
  "rule_based_hit msg hist = Inr (PDict [''classification'' \<mapsto> PStr ''manipulative_pattern'',
     ''rule_based_probability'' \<mapsto> PFloat 0.9])"

definition rule_based_no_score :: analyzer where
  "rule_based_no_score msg hist = Inr (PDict [''classification'' \<mapsto> PStr ''manipulative''])"

definition ml_manipulative :: analyzer where
  "ml_manipulative msg hist = Inr (PDict [''classification'' \<mapsto> PStr ''manipulative'',
     ''ml_model_confidence'' \<mapsto> PFloat 0.99])"

definition injection_hit :: analyzer where
  "injection_hit msg hist = Inr (PDict [''classification'' \<mapsto> PStr ''prompt_injection'',
     ''score'' \<mapsto> PFloat 0.95])"

definition raising :: analyzer where
  "raising msg hist = Inl (Exception ''model unavailable'')"

definition benign :: analyzer where
  "benign msg hist = Inr (PDict [''classification'' \<mapsto> PStr ''benign'', ''score'' \<mapsto> PFloat 0.1])"

definition scenario_message :: string where
  "scenario_message = ''You always twist my words, just admit it''"

definition scenario_firewall :: semantic_firewall where
  "scenario_firewall = \<lparr>detectors = [(''RuleBasedDetector'', rule_based_hit),
     (''MLBasedDetector'', ml_manipulative), (''EchoChamberDetector'', raising),
     (''InjectionDetector'', benign)]\<rparr>"

definition failing_firewall :: semantic_firewall where
  "failing_firewall = \<lparr>detectors = [(''RuleBasedDetector'', raising),
     (''MLBasedDetector'', raising), (''EchoChamberDetector'', raising),
     (''InjectionDetector'', raising)]\<rparr>"

definition mixed_firewall :: semantic_firewall where
  "mixed_firewall = \<lparr>detectors = [(''RuleBasedDetector'', raising),
     (''MLBasedDetector'', ml_manipulative), (''EchoChamberDetector'', benign),
     (''InjectionDetector'', benign)]\<rparr>"

definition no_score_firewall :: semantic_firewall where
  "no_score_firewall = \<lparr>detectors = [(''RuleBasedDetector'', rule_based_no_score),
     (''MLBasedDetector'', benign), (''EchoChamberDetector'', benign),
     (''InjectionDetector'', benign)]\<rparr>"

definition injection_firewall :: semantic_firewall where
  "injection_firewall = \<lparr>detectors = [(''RuleBasedDetector'', benign),
     (''MLBasedDetector'', benign), (''EchoChamberDetector'', benign),
     (''InjectionDetector'', injection_hit)]\<rparr>"

section \<open>The result dictionary\<close>

lemma store_fresh: "k \<notin> fst ` set kvs \<Longrightarrow> store k v kvs = kvs @ [(k, v)]"
  by (induction kvs) auto

lemma store_subset: "set (store k v kvs) \<subseteq> insert (k, v) (set kvs)"
  by (induction kvs) (auto split: if_splits)

lemma run_detector_raises:
  "snd det msg hist = Inl e \<Longrightarrow>
   run_detector det msg hist =
     ([DetectorFailed (fst det) (str_exc e)], error_placeholder (str_exc e))"
  by (simp add: run_detector_def)

lemma run_detector_ml_dict:
  "fst det = ''MLBasedDetector'' \<Longrightarrow> snd det msg hist = Inr (PDict d) \<Longrightarrow>
   run_detector det msg hist =
     ([], PDict (d(''classification'' \<mapsto> PStr ''neutral_ml_placeholder'')))"
  by (simp add: run_detector_def)

lemma analyze_loop_distinct:
  "distinct (map fst res @ map fst dets) \<Longrightarrow>
   analyze_loop dets msg hist (logs, res) =
     (logs @ concat (map (\<lambda>det. fst (run_detector det msg hist)) dets),
      res @ map (\<lambda>det. (fst det, snd (run_detector det msg hist))) dets)"
proof (induction dets arbitrary: logs res)
  case Nil
  then show ?case by simp
next
  case (Cons det dets)
  from Cons.prems have fresh: "fst det \<notin> fst ` set res" by auto
  from Cons.prems
  have d: "distinct (map fst (res @ [(fst det, snd (run_detector det msg hist))]) @ map fst dets)"
    by auto
  obtain l r where run: "run_detector det msg hist = (l, r)"
    by (cases "run_detector det msg hist")
  show ?case
    using Cons.IH [OF d, of "logs @ l"] by (simp add: store_fresh [OF fresh] run)
qed

lemma analyze_loop_subset:
  "set (snd (analyze_loop dets msg hist (logs, res))) \<subseteq>
     set res \<union> (\<lambda>det. (fst det, snd (run_detector det msg hist))) ` set dets"
proof (induction dets arbitrary: logs res)
  case Nil
  then show ?case by simp
next
  case (Cons det dets)
  obtain l r where run: "run_detector det msg hist = (l, r)"
    by (cases "run_detector det msg hist")
  have "set (snd (analyze_loop dets msg hist (logs @ l, store (fst det) r res))) \<subseteq>
      set (store (fst det) r res) \<union> (\<lambda>det. (fst det, snd (run_detector det msg hist))) ` set dets"
    by (rule Cons.IH)
  also have "\<dots> \<subseteq> insert (fst det, r) (set res) \<union>
      (\<lambda>det. (fst det, snd (run_detector det msg hist))) ` set dets"
    using store_subset [of "fst det" r res] by blast
  finally show ?case
    by (auto simp: run)
qed

lemma analyze_conversation_distinct:
  "distinct (map fst (detectors fw)) \<Longrightarrow>
   analyze_conversation fw msg hist =
     (concat (map (\<lambda>det. fst (run_detector det msg hist)) (detectors fw)),
      map (\<lambda>det. (fst det, snd (run_detector det msg hist))) (detectors fw))"
  using analyze_loop_distinct [of "[]" "detectors fw" msg hist "[]"]
  by (simp add: analyze_conversation_def)

lemma analysis_entries:
  "(n, r) \<in> set (snd (analyze_conversation fw msg hist)) \<Longrightarrow>
   \<exists>det\<in>set (detectors fw). n = fst det \<and> r = snd (run_detector det msg hist)"
  using analyze_loop_subset [of "detectors fw" msg hist "[]" "[]"]
  by (auto simp: analyze_conversation_def)

lemma analysis_distinct_lookup:
  assumes "distinct (map fst (detectors fw))" and "det \<in> set (detectors fw)"
  shows "map_of (snd (analyze_conversation fw msg hist)) (fst det) =
     Some (snd (run_detector det msg hist))"
proof -
  have "map_of (map (\<lambda>det. (fst det, snd (run_detector det msg hist))) dets) (fst det) =
      Some (snd (run_detector det msg hist))"
    if "distinct (map fst dets)" and "det \<in> set dets" for dets
    using that by (induction dets) (auto simp: rev_image_eqI)
  with assms show ?thesis
    by (simp add: analyze_conversation_distinct)
qed

lemma analysis_distinct_logs:
  assumes "distinct (map fst (detectors fw))" and "det \<in> set (detectors fw)"
  shows "set (fst (run_detector det msg hist)) \<subseteq> set (fst (analyze_conversation fw msg hist))"
  using assms by (auto simp: analyze_conversation_distinct)

lemma analysis_split:
  assumes "distinct (map fst dets)" and "det \<in> set dets"
  shows "\<exists>before after.
     map (\<lambda>det. (fst det, snd (run_detector det msg hist))) dets =
       before @ (fst det, snd (run_detector det msg hist)) # after
     \<and> filter (\<lambda>(n, r). n \<noteq> fst det)
         (map (\<lambda>det. (fst det, snd (run_detector det msg hist))) dets) = before @ after"
proof -
  let ?f = "\<lambda>det. (fst det, snd (run_detector det msg hist))"
  from assms(2) obtain ds1 ds2 where ds: "dets = ds1 @ det # ds2"
    by (auto dest: split_list)
  with assms(1) have n1: "\<forall>x\<in>set ds1. fst x \<noteq> fst det" and n2: "\<forall>x\<in>set ds2. fst x \<noteq> fst det"
    by (auto simp: image_iff)
  have "filter (\<lambda>(n, r). n \<noteq> fst det) (map ?f ds1) = map ?f ds1"
    "filter (\<lambda>(n, r). n \<noteq> fst det) (map ?f ds2) = map ?f ds2"
    using n1 n2 by (simp_all add: filter_map comp_def)
  then have "map ?f dets = map ?f ds1 @ ?f det # map ?f ds2
      \<and> filter (\<lambda>(n, r). n \<noteq> fst det) (map ?f dets) = map ?f ds1 @ map ?f ds2"
    by (simp add: ds)
  then show ?thesis by blast
qed

lemma init_detectors:
  "init a b c e = Inr fw \<Longrightarrow>
   \<exists>f1 f2 f3 f4. detectors fw = [(''RuleBasedDetector'', f1), (''MLBasedDetector'', f2),
     (''EchoChamberDetector'', f3), (''InjectionDetector'', f4)]"
  by (auto simp: init_def split: sum.splits)

lemma init_names:
  "init a b c e = Inr fw \<Longrightarrow>
   map fst (detectors fw) = [''RuleBasedDetector'', ''MLBasedDetector'',
     ''EchoChamberDetector'', ''InjectionDetector'']"
  using init_detectors [of a b c e fw] by auto

section \<open>The decision loop\<close>

lemma decision_loop_append:
  "decision_loop (pre @ post) thr =
     (case decision_loop pre thr of
        (l, Inr False) \<Rightarrow> (case decision_loop post thr of (l', out) \<Rightarrow> (l @ l', out))
      | (l, out) \<Rightarrow> (l, out))"
  by (induction pre) (auto split: prod.splits sum.splits bool.splits)

lemma decision_loop_stop:
  "snd (check_entry n r thr) = Inr True \<Longrightarrow>
   decision_loop (pre @ (n, r) # post) thr = decision_loop (pre @ [(n, r)]) thr"
  by (cases "check_entry n r thr")
     (auto simp: decision_loop_append [of pre] split: prod.splits sum.splits bool.splits)

lemma decision_loop_skip:
  "snd (check_entry n r thr) = Inr False \<Longrightarrow>
   snd (decision_loop (pre @ (n, r) # post) thr) = snd (decision_loop (pre @ post) thr)"
  by (cases "check_entry n r thr")
     (auto simp: decision_loop_append [of pre] split: prod.splits sum.splits bool.splits)

lemma decision_loop_all_continue:
  "\<forall>e\<in>set rs. snd (check_entry (fst e) (snd e) thr) = Inr False \<Longrightarrow>
   snd (decision_loop rs thr) = Inr False"
  by (induction rs) (auto split: prod.splits sum.splits bool.splits)

lemma decision_loop_no_raise:
  "\<forall>e\<in>set rs. \<exists>b. snd (check_entry (fst e) (snd e) thr) = Inr b \<Longrightarrow>
   snd (decision_loop rs thr) = Inr (\<exists>e\<in>set rs. snd (check_entry (fst e) (snd e) thr) = Inr True)"
  by (induction rs) (auto split: prod.splits sum.splits bool.splits)

lemma is_manipulative_snd:
  "snd (is_manipulative fw msg hist thr) =
     snd (decision_loop (snd (analyze_conversation fw msg hist)) thr)"
  by (simp add: is_manipulative_def split: prod.splits)

lemma is_manipulative_fst:
  "fst (is_manipulative fw msg hist thr) =
     fst (analyze_conversation fw msg hist)
       @ fst (decision_loop (snd (analyze_conversation fw msg hist)) thr)"
  by (simp add: is_manipulative_def split: prod.splits)

section \<open>One entry of the decision loop\<close>

lemma str_lower_error: "str_lower ''error_detector_failed'' = ''error_detector_failed''"
  by (simp add: str_lower_def lower_char_def upper_to_lower_def)

lemma str_lower_unknown: "str_lower ''unknown'' = ''unknown''"
  by (simp add: str_lower_def lower_char_def upper_to_lower_def)

lemma str_lower_neutral: "str_lower ''neutral_ml_placeholder'' = ''neutral_ml_placeholder''"
  by (simp add: str_lower_def lower_char_def upper_to_lower_def)

lemma flag_error_label: "fst (snd (flag_and_score n d ''error_detector_failed'')) = False"
  by (simp add: flag_and_score_def)

lemma py_lower_classification:
  "py_lower (dict_get d ''classification'' (PStr ''unknown'')) = Inr c \<longleftrightarrow> classification_of d = Some c"
  by (auto simp: dict_get_def classification_of_def str_lower_unknown split: option.splits pyval.splits)

lemma classification_of_error:
  "d ''classification'' = Some (PStr ''error_detector_failed'') \<Longrightarrow>
   classification_of d = Some ''error_detector_failed''"
  by (simp add: classification_of_def str_lower_error)

lemma check_entry_dict:
  assumes "classification_of d = Some c"
  shows "snd (check_entry n (PDict d) thr) =
     (if fst (snd (flag_and_score n d c))
      then py_ge (snd (snd (flag_and_score n d c))) thr else Inr False)"
proof (cases "d ''error'' \<noteq> None \<and> d ''classification'' = Some (PStr ''error_detector_failed'')")
  case True
  with assms have "c = ''error_detector_failed''"
    by (simp add: classification_of_def str_lower_error)
  with True show ?thesis
    by (simp add: check_entry_def flag_error_label)
next
  case False
  from assms have "py_lower (dict_get d ''classification'' (PStr ''unknown'')) = Inr c"
    by (simp add: py_lower_classification)
  with False show ?thesis
    by (cases "flag_and_score n d c")
       (auto simp: check_entry_def split: sum.splits bool.splits)
qed

lemma check_entry_not_dict:
  "\<forall>d. r \<noteq> PDict d \<Longrightarrow> snd (check_entry n r thr) = Inr False"
  by (cases r) (simp_all add: check_entry_def)

lemma check_entry_ill_typed:
  assumes "classification_of d = None"
  shows "\<exists>e. snd (check_entry n (PDict d) thr) = Inl e"
proof -
  from assms obtain v where v: "d ''classification'' = Some v" and "\<forall>s. v \<noteq> PStr s"
    by (auto simp: classification_of_def split: option.splits pyval.splits)
  then obtain e where "py_lower v = Inl e"
    by (cases v) auto
  with v \<open>\<forall>s. v \<noteq> PStr s\<close> show ?thesis
    by (simp add: check_entry_def dict_get_def)
qed

lemma check_entry_placeholder:
  "check_entry n (error_placeholder m) thr = ([ReportedError n (PStr m)], Inr False)"
  by (simp add: check_entry_def error_placeholder_def dict_get_def)

lemma check_entry_neutral:
  "snd (check_entry ''MLBasedDetector''
     (PDict (d(''classification'' \<mapsto> PStr ''neutral_ml_placeholder''))) thr) = Inr False"
proof -
  have c: "classification_of (d(''classification'' \<mapsto> PStr ''neutral_ml_placeholder''))
      = Some ''neutral_ml_placeholder''"
    by (simp add: classification_of_def str_lower_neutral)
  show ?thesis
    by (simp add: check_entry_dict [OF c] flag_and_score_def)
qed

lemma run_detector_ml:
  "fst det = ''MLBasedDetector'' \<Longrightarrow>
   snd (check_entry ''MLBasedDetector'' (snd (run_detector det msg hist)) thr) = Inr False"
proof (cases "snd det msg hist")
  case (Inl e)
  then show ?thesis
    by (simp add: run_detector_def check_entry_placeholder)
next
  case (Inr r)
  assume ml: "fst det = ''MLBasedDetector''"
  show ?thesis
    by (cases r) (simp_all add: run_detector_def Inr ml check_entry_placeholder check_entry_neutral)
qed

lemma failure_has_no_effect:
  assumes d: "distinct (map fst (detectors fw))" and m: "det \<in> set (detectors fw)"
    and r: "snd det msg hist = Inl e"
  shows "snd (is_manipulative fw msg hist thr) =
     snd (decision_loop (filter (\<lambda>(n, r). n \<noteq> fst det)
       (snd (analyze_conversation fw msg hist))) thr)"
proof -
  from analysis_split [OF d m, of msg hist] obtain before after where
    a: "snd (analyze_conversation fw msg hist) =
        before @ (fst det, error_placeholder (str_exc e)) # after"
    and f: "filter (\<lambda>(n, r). n \<noteq> fst det) (snd (analyze_conversation fw msg hist)) =
        before @ after"
    by (auto simp: analyze_conversation_distinct [OF d] run_detector_raises [OF r])
  have "snd (check_entry (fst det) (error_placeholder (str_exc e)) thr) = Inr False"
    by (simp add: check_entry_placeholder)
  from decision_loop_skip [OF this, of before after] show ?thesis
    unfolding is_manipulative_snd f unfolding a .
qed

section \<open>Well-typed results\<close>

lemma dict_get_numeric:
  "numeric_or_absent (d k) \<Longrightarrow> \<exists>x. dflt = PFloat x \<Longrightarrow> \<exists>x. dict_get d k dflt = PFloat x"
  by (cases "d k"; cases "the (d k)") (auto simp: numeric_or_absent_def dict_get_def)

lemma flag_and_score_numeric:
  assumes "list_all (\<lambda>k. numeric_or_absent (d k)) score_fields"
  shows "\<exists>x. snd (snd (flag_and_score n d c)) = PFloat x"
proof -
  from assms have f: "numeric_or_absent (d ''rule_based_probability'')"
    "numeric_or_absent (d ''ml_model_confidence'')"
    "numeric_or_absent (d ''echo_chamber_probability'')"
    "numeric_or_absent (d ''score'')" "numeric_or_absent (d ''probability'')"
    "numeric_or_absent (d ''confidence'')"
    by (simp_all add: score_fields_def)
  show ?thesis
    unfolding flag_and_score_def
    by (simp add: dict_get_numeric f)
qed

lemma check_entry_well_typed:
  "well_typed r \<Longrightarrow> \<exists>b. snd (check_entry n r thr) = Inr b"
proof (cases r)
  case (PDict d)
  assume "well_typed r"
  with PDict obtain c where c: "classification_of d = Some c"
    and num: "list_all (\<lambda>k. numeric_or_absent (d k)) score_fields"
    by (auto simp: well_typed_def)
  from flag_and_score_numeric [OF num] obtain x where "snd (snd (flag_and_score n d c)) = PFloat x"
    by blast
  then show ?thesis
    by (auto simp: PDict check_entry_dict [OF c])
qed (auto simp: check_entry_def)

lemma decision_loop_well_typed:
  assumes "list_all (\<lambda>(n, r). well_typed r) rs"
  shows "snd (decision_loop rs thr) =
     Inr (\<exists>e\<in>set rs. snd (check_entry (fst e) (snd e) thr) = Inr True)"
proof (rule decision_loop_no_raise)
  show "\<forall>e\<in>set rs. \<exists>b. snd (check_entry (fst e) (snd e) thr) = Inr b"
    using assms check_entry_well_typed by (auto simp: list_all_iff)
qed

lemma well_typed_placeholder: "well_typed (error_placeholder m)"
  by (simp add: well_typed_def error_placeholder_def classification_of_def score_fields_def
      numeric_or_absent_def)

lemma well_typed_overwritten:
  assumes "well_typed (PDict d)"
  shows "well_typed (PDict (d(''classification'' \<mapsto> PStr s)))"
  using assms
  by (simp add: well_typed_def classification_of_def score_fields_def)

lemma run_detector_well_typed:
  assumes "case snd det msg hist of Inl e \<Rightarrow> True | Inr r \<Rightarrow> well_typed r"
  shows "well_typed (snd (run_detector det msg hist))"
proof (cases "snd det msg hist")
  case (Inl e)
  then show ?thesis
    by (simp add: run_detector_raises well_typed_placeholder)
next
  case (Inr r)
  with assms have wt: "well_typed r" by simp
  show ?thesis
  proof (cases r)
    case (PDict d)
    with wt show ?thesis
      by (simp add: run_detector_def Let_def Inr well_typed_overwritten)
  qed (simp_all add: run_detector_def Let_def Inr well_typed_placeholder, simp_all add: well_typed_def)
qed

lemma dict_get_spec_score:
  "numeric_or_absent (d k) \<Longrightarrow> dict_get d k (PFloat 0) = PFloat (spec_score d k)"
  by (cases "d k"; cases "the (d k)") (auto simp: numeric_or_absent_def dict_get_def spec_score_def)

lemma spec_errored_label:
  "spec_errored d \<Longrightarrow> classification_of d = Some ''error_detector_failed''"
  by (simp add: spec_errored_def classification_of_def str_lower_error)

lemma spec_qualifies_names:
  "spec_qualifies n r thr \<Longrightarrow>
   n = ''RuleBasedDetector'' \<or> n = ''EchoChamberDetector'' \<or> n = ''InjectionDetector''"
  by (cases r) (auto simp: spec_qualifies_def)

lemma check_entry_spec:
  assumes n: "n = ''RuleBasedDetector'' \<or> n = ''EchoChamberDetector'' \<or> n = ''InjectionDetector''"
    and wt: "well_typed r"
  shows "snd (check_entry n r thr) = Inr (spec_qualifies n r thr)"
proof (cases r)
  case (PDict d)
  with wt obtain c where c: "classification_of d = Some c"
    and num: "list_all (\<lambda>k. numeric_or_absent (d k)) score_fields"
    by (auto simp: well_typed_def)
  from num have f: "dict_get d ''rule_based_probability'' (PFloat 0) = PFloat (spec_score d ''rule_based_probability'')"
    "dict_get d ''echo_chamber_probability'' (PFloat 0) = PFloat (spec_score d ''echo_chamber_probability'')"
    "dict_get d ''score'' (PFloat 0) = PFloat (spec_score d ''score'')"
    by (simp_all add: score_fields_def dict_get_spec_score)
  have lab: "spec_label d = c"
    by (simp add: spec_label_def c)
  show ?thesis
  proof (cases "spec_errored d")
    case True
    then have "c = ''error_detector_failed''"
      using c spec_errored_label by fastforce
    then show ?thesis
      using True by (simp add: PDict check_entry_dict [OF c] flag_error_label spec_qualifies_def)
  next
    case False
    then show ?thesis
      using n by (auto simp: PDict check_entry_dict [OF c] flag_and_score_def f
          spec_qualifies_def lab)
  qed
qed (simp_all add: check_entry_def spec_qualifies_def)

lemma flag_and_score_returned:
  assumes "spec_keyword_match n c" and "returned_score n d = Some v"
  shows "snd (flag_and_score n d c) = (True, v)"
proof -
  consider "n = ''RuleBasedDetector''" | "n = ''MLBasedDetector''" | "n = ''EchoChamberDetector''"
    | "n = ''InjectionDetector''"
    | "n \<noteq> ''RuleBasedDetector''" "n \<noteq> ''MLBasedDetector''" "n \<noteq> ''EchoChamberDetector''"
      "n \<noteq> ''InjectionDetector''"
    by blast
  then show ?thesis
  proof cases
    case 1
    with assms show ?thesis
      by (auto simp: flag_and_score_def spec_keyword_match_def returned_score_def dict_get_def)
  next
    case 2
    with assms show ?thesis
      by (auto simp: flag_and_score_def spec_keyword_match_def returned_score_def dict_get_def)
  next
    case 3
    with assms show ?thesis
      by (auto simp: flag_and_score_def spec_keyword_match_def returned_score_def dict_get_def)
  next
    case 4
    with assms show ?thesis
      by (auto simp: flag_and_score_def spec_keyword_match_def returned_score_def dict_get_def)
  next
    case 5
    with assms show ?thesis
      by (auto simp: flag_and_score_def spec_keyword_match_def returned_score_def dict_get_def
          spec_generic_flagged_def split: option.splits)
  qed
qed

section \<open>The log\<close>

lemma flag_and_score_logs: "filter is_flag_record (fst (flag_and_score n d c)) = []"
  by (simp add: flag_and_score_def)

lemma check_entry_logs:
  "(snd (check_entry n r thr) = Inr True \<longrightarrow>
      (\<exists>l c s. fst (check_entry n r thr) = l @ [FlaggedManipulative n c s thr]
         \<and> filter is_flag_record l = []))
   \<and> (snd (check_entry n r thr) \<noteq> Inr True \<longrightarrow>
      filter is_flag_record (fst (check_entry n r thr)) = [])"
proof (cases r)
  case (PDict d)
  show ?thesis
  proof (cases "d ''error'' \<noteq> None \<and> d ''classification'' = Some (PStr ''error_detector_failed'')")
    case True
    then show ?thesis by (simp add: PDict check_entry_def)
  next
    case False
    show ?thesis
    proof (cases "py_lower (dict_get d ''classification'' (PStr ''unknown''))")
      case (Inl e)
      with False show ?thesis by (simp add: PDict check_entry_def)
    next
      case (Inr c)
      obtain l f s where fs: "flag_and_score n d c = (l, f, s)"
        by (cases "flag_and_score n d c")
      with flag_and_score_logs [of n d c] have l: "filter is_flag_record l = []" by simp
      show ?thesis
      proof (cases "py_ge s thr")
        case (Inl e)
        with False Inr fs l show ?thesis
          by (simp add: PDict check_entry_def)
      next
        case ge: (Inr b)
        with False Inr fs l show ?thesis
          by (cases b; cases f) (simp_all add: PDict check_entry_def)
      qed
    qed
  qed
qed (simp_all add: check_entry_def)

lemma decision_loop_trigger:
  assumes "\<forall>e\<in>set rs. \<exists>b. snd (check_entry (fst e) (snd e) thr) = Inr b"
  shows "case find (\<lambda>(n, r). snd (check_entry n r thr) = Inr True) rs of
           None \<Rightarrow> snd (decision_loop rs thr) = Inr False
             \<and> filter is_flag_record (fst (decision_loop rs thr)) = []
         | Some (n, r) \<Rightarrow> snd (decision_loop rs thr) = Inr True
             \<and> (\<exists>l c s. fst (decision_loop rs thr) = l @ [FlaggedManipulative n c s thr]
                  \<and> filter is_flag_record l = [])"
  using assms
proof (induction rs)
  case Nil
  then show ?case by simp
next
  case (Cons x rs)
  obtain n r where x: "x = (n, r)" by (cases x)
  obtain l out where ce: "check_entry n r thr = (l, out)" by (cases "check_entry n r thr")
  from Cons.prems x ce obtain b where b: "out = Inr b" by auto
  show ?case
  proof (cases b)
    case True
    with check_entry_logs [of n r thr] ce b show ?thesis
      by (simp add: x)
  next
    case False
    with check_entry_logs [of n r thr] ce b have l: "filter is_flag_record l = []"
      by simp
    obtain l' out' where dl: "decision_loop rs thr = (l', out')"
      by (cases "decision_loop rs thr")
    from Cons.IH Cons.prems dl
    have ih: "case find (\<lambda>(n, r). snd (check_entry n r thr) = Inr True) rs of
           None \<Rightarrow> out' = Inr False \<and> filter is_flag_record l' = []
         | Some (n, r) \<Rightarrow> out' = Inr True
             \<and> (\<exists>k c s. l' = k @ [FlaggedManipulative n c s thr] \<and> filter is_flag_record k = [])"
      by (auto split: option.splits)
    show ?thesis
    proof (cases "find (\<lambda>(n, r). snd (check_entry n r thr) = Inr True) rs")
      case None
      with ih l show ?thesis
        by (simp add: x ce b False dl)
    next
      case (Some y)
      obtain n' r' where y: "y = (n', r')" by (cases y)
      from ih Some y obtain k c s where "out' = Inr True"
        and k: "l' = k @ [FlaggedManipulative n' c s thr]" "filter is_flag_record k = []"
        by auto
      then have "fst (decision_loop (x # rs) thr) = (l @ k) @ [FlaggedManipulative n' c s thr]"
        "filter is_flag_record (l @ k) = []" "snd (decision_loop (x # rs) thr) = Inr True"
        using l by (simp_all add: x ce b False dl)
      then show ?thesis
        using Some y by (simp add: x ce b False)
    qed
  qed
qed

lemma analyze_loop_logs:
  "filter is_flag_record (fst (analyze_loop dets msg hist (logs, res))) =
     filter is_flag_record logs"
proof (induction dets arbitrary: logs res)
  case Nil
  then show ?case by simp
next
  case (Cons det dets)
  obtain l r where run: "run_detector det msg hist = (l, r)"
    by (cases "run_detector det msg hist")
  then have "filter is_flag_record l = []"
    by (auto simp: run_detector_def Let_def split: sum.splits)
  with Cons.IH [of "logs @ l"] show ?case
    by (simp add: run)
qed

section \<open>Evaluation on concrete detectors\<close>

text \<open>Unfolding sets for evaluating a call on concrete detectors.\<close>

lemmas scenario_defs = scenario_firewall_def scenario_message_def rule_based_hit_def
  ml_manipulative_def raising_def benign_def

lemmas eval_defs = analyze_conversation_def run_detector_def error_placeholder_def
  well_typed_def classification_of_def score_fields_def numeric_or_absent_def
  str_lower_def lower_char_def upper_to_lower_def

section \<open>The claims\<close>

text \<open>
  C1. For a firewall that \<open>init\<close> built and a call whose result dictionary is well typed,
  \<open>is_manipulative\<close> returns \<open>True\<close> if and only if some entry qualifies: an entry that is
  not errored, whose lower-cased classification matches the keyword policy of its kind
  (rule-based: \<open>concern\<close> or \<open>manipulative\<close>, score \<open>rule_based_probability\<close>; echo
  chamber: \<open>echo_chamber\<close> and not \<open>benign\<close>, score \<open>echo_chamber_probability\<close>; injection:
  \<open>injection\<close> and not \<open>benign\<close>, score \<open>score\<close>) and whose score reaches the threshold;
  otherwise it returns \<open>False\<close>. The iteration short-circuits: at a qualifying entry the loop
  ends as if nothing followed it, so the items after it are neither examined nor logged, and
  when the items before it are well typed the outcome is \<open>True\<close> whatever follows.
\<close>

theorem is_manipulative_iff_some_entry_qualifies:
  "(init a b c e = Inr fw \<longrightarrow>
    list_all (\<lambda>(n, r). well_typed r) (snd (analyze_conversation fw msg hist)) \<longrightarrow>
      snd (is_manipulative fw msg hist thr) =
        Inr (\<exists>(n, r)\<in>set (snd (analyze_conversation fw msg hist)). spec_qualifies n r thr))
   \<and> (spec_qualifies n r thr \<longrightarrow> well_typed r \<longrightarrow> list_all (\<lambda>(n, r). well_typed r) pre \<longrightarrow>
      decision_loop (pre @ (n, r) # post) thr = decision_loop (pre @ [(n, r)]) thr
      \<and> snd (decision_loop (pre @ (n, r) # post) thr) = Inr True)"
proof (intro conjI impI)
  assume i: "init a b c e = Inr fw"
    and wt: "list_all (\<lambda>(n, r). well_typed r) (snd (analyze_conversation fw msg hist))"
  from init_detectors [OF i] obtain f1 f2 f3 f4 where
    ds: "detectors fw = [(''RuleBasedDetector'', f1), (''MLBasedDetector'', f2),
      (''EchoChamberDetector'', f3), (''InjectionDetector'', f4)]"
    by blast
  define r1 where "r1 = snd (run_detector (''RuleBasedDetector'', f1) msg hist)"
  define r2 where "r2 = snd (run_detector (''MLBasedDetector'', f2) msg hist)"
  define r3 where "r3 = snd (run_detector (''EchoChamberDetector'', f3) msg hist)"
  define r4 where "r4 = snd (run_detector (''InjectionDetector'', f4) msg hist)"
  have res: "snd (analyze_conversation fw msg hist) =
      [(''RuleBasedDetector'', r1), (''MLBasedDetector'', r2),
       (''EchoChamberDetector'', r3), (''InjectionDetector'', r4)]"
    by (simp add: analyze_conversation_distinct ds r1_def r2_def r3_def r4_def)
  from wt have w: "well_typed r1" "well_typed r3" "well_typed r4"
    by (simp_all add: res)
  have e1: "snd (check_entry ''RuleBasedDetector'' r1 thr) = Inr (spec_qualifies ''RuleBasedDetector'' r1 thr)"
    by (rule check_entry_spec) (simp_all add: w)
  have e2: "snd (check_entry ''MLBasedDetector'' r2 thr) = Inr False"
    unfolding r2_def by (rule run_detector_ml) simp
  have q2: "\<not> spec_qualifies ''MLBasedDetector'' r2 thr"
    using spec_qualifies_names [of "''MLBasedDetector''" r2 thr] by auto
  have e3: "snd (check_entry ''EchoChamberDetector'' r3 thr) = Inr (spec_qualifies ''EchoChamberDetector'' r3 thr)"
    by (rule check_entry_spec) (simp_all add: w)
  have e4: "snd (check_entry ''InjectionDetector'' r4 thr) = Inr (spec_qualifies ''InjectionDetector'' r4 thr)"
    by (rule check_entry_spec) (simp_all add: w)
  have "snd (is_manipulative fw msg hist thr) =
      Inr (\<exists>e\<in>set (snd (analyze_conversation fw msg hist)).
             snd (check_entry (fst e) (snd e) thr) = Inr True)"
    unfolding is_manipulative_snd by (rule decision_loop_well_typed [OF wt])
  then show "snd (is_manipulative fw msg hist thr) =
      Inr (\<exists>(n, r)\<in>set (snd (analyze_conversation fw msg hist)). spec_qualifies n r thr)"
    by (simp add: res e1 e2 e3 e4 q2)
next
  assume q: "spec_qualifies n r thr" and wt: "well_typed r"
  have t: "snd (check_entry n r thr) = Inr True"
    using check_entry_spec [OF spec_qualifies_names [OF q] wt] q by simp
  show "decision_loop (pre @ (n, r) # post) thr = decision_loop (pre @ [(n, r)]) thr"
    by (rule decision_loop_stop [OF t])
  assume "list_all (\<lambda>(n, r). well_typed r) pre"
  with wt have "list_all (\<lambda>(n, r). well_typed r) (pre @ [(n, r)])"
    by simp
  from decision_loop_well_typed [OF this, of thr] t
  have "snd (decision_loop (pre @ [(n, r)]) thr) = Inr True"
    by auto
  then show "snd (decision_loop (pre @ (n, r) # post) thr) = Inr True"
    using decision_loop_stop [OF t, of pre post] by simp
qed

theorem is_manipulative_iff_some_entry_qualifies_witness:
  "snd (is_manipulative scenario_firewall scenario_message None 0.75) = Inr True
   \<and> snd (decision_loop ([(''MLBasedDetector'', PNone)]
          @ (''RuleBasedDetector'', PDict [''classification'' \<mapsto> PStr ''Serious CONCERN'',
               ''rule_based_probability'' \<mapsto> PFloat 0.8])
          # [(''InjectionDetector'', PDict [''classification'' \<mapsto> PNone])]) 0.75) = Inr True"
proof -
  have i: "init (Inr rule_based_hit) (Inr ml_manipulative) (Inr raising) (Inr benign)
      = Inr scenario_firewall"
    by (simp add: init_def scenario_firewall_def)
  have wt: "list_all (\<lambda>(n, r). well_typed r)
      (snd (analyze_conversation scenario_firewall scenario_message None))"
    by (simp add: scenario_defs eval_defs)
  have q: "\<exists>(n, r)\<in>set (snd (analyze_conversation scenario_firewall scenario_message None)).
      spec_qualifies n r 0.75"
    by (simp add: scenario_defs eval_defs spec_qualifies_def spec_errored_def spec_label_def
        spec_score_def)
  have q': "spec_qualifies ''RuleBasedDetector''
      (PDict [''classification'' \<mapsto> PStr ''Serious CONCERN'',
              ''rule_based_probability'' \<mapsto> PFloat 0.8]) 0.75"
    by (simp add: eval_defs spec_qualifies_def spec_errored_def spec_label_def spec_score_def)
  have wt': "well_typed (PDict [''classification'' \<mapsto> PStr ''Serious CONCERN'',
              ''rule_based_probability'' \<mapsto> PFloat 0.8])"
    by (simp add: eval_defs)
  have pre: "list_all (\<lambda>(n, r). well_typed r) [(''MLBasedDetector'', PNone)]"
    by (simp add: well_typed_def)
  note inst = is_manipulative_iff_some_entry_qualifies
    [of "Inr rule_based_hit" "Inr ml_manipulative" "Inr raising" "Inr benign" scenario_firewall
      scenario_message None "0.75" "''RuleBasedDetector''"
      "PDict [''classification'' \<mapsto> PStr ''Serious CONCERN'',
              ''rule_based_probability'' \<mapsto> PFloat 0.8]"
      "[(''MLBasedDetector'', PNone)]"
      "[(''InjectionDetector'', PDict [''classification'' \<mapsto> PNone])]"]
  have "snd (is_manipulative scenario_firewall scenario_message None 0.75) =
      Inr (\<exists>(n, r)\<in>set (snd (analyze_conversation scenario_firewall scenario_message None)).
        spec_qualifies n r 0.75)"
    by (rule inst [THEN conjunct1, rule_format, OF i wt])
  then have "snd (is_manipulative scenario_firewall scenario_message None 0.75) = Inr True"
    by (simp only: q)
  moreover from inst [THEN conjunct2, rule_format, OF q' wt' pre]
  have "snd (decision_loop ([(''MLBasedDetector'', PNone)]
          @ (''RuleBasedDetector'', PDict [''classification'' \<mapsto> PStr ''Serious CONCERN'',
               ''rule_based_probability'' \<mapsto> PFloat 0.8])
          # [(''InjectionDetector'', PDict [''classification'' \<mapsto> PNone])]) 0.75) = Inr True"
    by blast
  ultimately show ?thesis by blast
qed

text \<open>
  C2. Whatever the message and the history, and whether the detectors return or raise,
  the result dictionary of \<open>analyze_conversation\<close> has one entry per registered detector,
  keyed by the class names in registration order: for every firewall whose detectors have
  distinct class names, and so for every firewall that \<open>init\<close> built.
\<close>

theorem analyze_conversation_one_entry_per_detector:
  "(distinct (map fst (detectors fw)) \<longrightarrow>
      map fst (snd (analyze_conversation fw msg hist)) = map fst (detectors fw))
   \<and> (init a b c e = Inr fw \<longrightarrow>
      map fst (snd (analyze_conversation fw msg hist)) =
        [''RuleBasedDetector'', ''MLBasedDetector'', ''EchoChamberDetector'',
         ''InjectionDetector''])"
proof (intro conjI impI)
  assume "distinct (map fst (detectors fw))"
  then show "map fst (snd (analyze_conversation fw msg hist)) = map fst (detectors fw)"
    by (simp add: analyze_conversation_distinct comp_def)
next
  assume i: "init a b c e = Inr fw"
  have "distinct (map fst (detectors fw))"
    by (simp add: init_names [OF i])
  then have "map fst (snd (analyze_conversation fw msg hist)) = map fst (detectors fw)"
    by (simp add: analyze_conversation_distinct comp_def)
  then show "map fst (snd (analyze_conversation fw msg hist)) =
      [''RuleBasedDetector'', ''MLBasedDetector'', ''EchoChamberDetector'',
       ''InjectionDetector'']"
    by (simp add: init_names [OF i])
qed

theorem analyze_conversation_one_entry_per_detector_witness:
  "map fst (snd (analyze_conversation failing_firewall scenario_message None)) =
     [''RuleBasedDetector'', ''MLBasedDetector'', ''EchoChamberDetector'', ''InjectionDetector'']
   \<and> length (snd (analyze_conversation failing_firewall scenario_message None)) =
       length (detectors failing_firewall)"
proof -
  have d: "distinct (map fst (detectors failing_firewall))"
    by (simp add: failing_firewall_def)
  have i: "init (Inr raising) (Inr raising) (Inr raising) (Inr raising) = Inr failing_firewall"
    by (simp add: init_def failing_firewall_def)
  note inst = analyze_conversation_one_entry_per_detector
    [of failing_firewall scenario_message None "Inr raising" "Inr raising" "Inr raising"
      "Inr raising"]
  have "length (snd (analyze_conversation failing_firewall scenario_message None)) =
      length (detectors failing_firewall)"
    using arg_cong [OF inst [THEN conjunct1, rule_format, OF d], of length]
    by (simp only: length_map)
  with inst [THEN conjunct2, rule_format, OF i] show ?thesis
    by blast
qed

text \<open>
  C3. A detector that raises during \<open>analyze_conversation\<close> is caught there: the failure is
  logged and the detector's entry in the result dictionary is the placeholder with the
  exception's message under \<open>error\<close> and \<open>error_detector_failed\<close> under \<open>classification\<close>. The
  decision loop skips such an entry without raising, so the outcome of \<open>is_manipulative\<close> is
  the one the other entries alone give; and when every detector either raises or returns a
  well-typed result, \<open>is_manipulative\<close> returns a boolean: no detector's failure reaches
  the caller.
\<close>

theorem detector_failure_is_isolated:
  "(distinct (map fst (detectors fw)) \<longrightarrow> det \<in> set (detectors fw) \<longrightarrow>
    snd det msg hist = Inl e \<longrightarrow>
      map_of (snd (analyze_conversation fw msg hist)) (fst det) =
        Some (PDict [''error'' \<mapsto> PStr (str_exc e),
                     ''classification'' \<mapsto> PStr ''error_detector_failed''])
      \<and> DetectorFailed (fst det) (str_exc e) \<in> set (fst (analyze_conversation fw msg hist)))
   \<and> snd (check_entry n (PDict [''error'' \<mapsto> PStr m,
             ''classification'' \<mapsto> PStr ''error_detector_failed'']) thr) = Inr False
   \<and> (distinct (map fst (detectors fw)) \<longrightarrow> det \<in> set (detectors fw) \<longrightarrow>
       snd det msg hist = Inl e \<longrightarrow>
         snd (is_manipulative fw msg hist thr) =
           snd (decision_loop (filter (\<lambda>(n, r). n \<noteq> fst det)
             (snd (analyze_conversation fw msg hist))) thr))
   \<and> ((\<forall>det\<in>set (detectors fw).
          case snd det msg hist of Inl e \<Rightarrow> True | Inr r \<Rightarrow> well_typed r) \<longrightarrow>
        (\<exists>b. snd (is_manipulative fw msg hist thr) = Inr b))"
proof (intro conjI impI)
  assume d: "distinct (map fst (detectors fw))" and m: "det \<in> set (detectors fw)"
    and r: "snd det msg hist = Inl e"
  then show "snd (is_manipulative fw msg hist thr) =
      snd (decision_loop (filter (\<lambda>(n, r). n \<noteq> fst det)
        (snd (analyze_conversation fw msg hist))) thr)"
    by (rule failure_has_no_effect)
next
  assume d: "distinct (map fst (detectors fw))" and m: "det \<in> set (detectors fw)"
    and r: "snd det msg hist = Inl e"
  from analysis_distinct_lookup [OF d m, of msg hist]
  show "map_of (snd (analyze_conversation fw msg hist)) (fst det) =
      Some (PDict [''error'' \<mapsto> PStr (str_exc e),
                   ''classification'' \<mapsto> PStr ''error_detector_failed''])"
    by (simp add: run_detector_raises [OF r] error_placeholder_def)
  from analysis_distinct_logs [OF d m, of msg hist]
  show "DetectorFailed (fst det) (str_exc e) \<in> set (fst (analyze_conversation fw msg hist))"
    by (simp add: run_detector_raises [OF r])
next
  show "snd (check_entry n (PDict [''error'' \<mapsto> PStr m,
      ''classification'' \<mapsto> PStr ''error_detector_failed'']) thr) = Inr False"
    using check_entry_placeholder [of n m thr] by (simp add: error_placeholder_def)
next
  assume a: "\<forall>det\<in>set (detectors fw).
      case snd det msg hist of Inl e \<Rightarrow> True | Inr r \<Rightarrow> well_typed r"
  have "list_all (\<lambda>(n, r). well_typed r) (snd (analyze_conversation fw msg hist))"
    unfolding list_all_iff
  proof
    fix x assume "x \<in> set (snd (analyze_conversation fw msg hist))"
    then obtain dt where "dt \<in> set (detectors fw)" and "snd x = snd (run_detector dt msg hist)"
      using analysis_entries [of "fst x" "snd x" fw msg hist] by auto
    with a show "case x of (n, r) \<Rightarrow> well_typed r"
      by (cases x) (simp add: run_detector_well_typed)
  qed
  from decision_loop_well_typed [OF this, of thr]
  show "\<exists>b. snd (is_manipulative fw msg hist thr) = Inr b"
    by (simp add: is_manipulative_snd)
qed

theorem detector_failure_is_isolated_witness:
  "map_of (snd (analyze_conversation mixed_firewall scenario_message None)) ''RuleBasedDetector'' =
     Some (PDict [''error'' \<mapsto> PStr ''model unavailable'',
                  ''classification'' \<mapsto> PStr ''error_detector_failed''])
   \<and> DetectorFailed ''RuleBasedDetector'' ''model unavailable''
       \<in> set (fst (analyze_conversation mixed_firewall scenario_message None))
   \<and> snd (is_manipulative mixed_firewall scenario_message None 0.75) =
       snd (decision_loop (filter (\<lambda>(n, r). n \<noteq> ''RuleBasedDetector'')
         (snd (analyze_conversation mixed_firewall scenario_message None))) 0.75)
   \<and> (\<exists>b. snd (is_manipulative mixed_firewall scenario_message None 0.75) = Inr b)"
proof -
  have d: "distinct (map fst (detectors mixed_firewall))"
    by (simp add: mixed_firewall_def)
  have m: "(''RuleBasedDetector'', raising) \<in> set (detectors mixed_firewall)"
    by (simp add: mixed_firewall_def)
  have r: "snd (''RuleBasedDetector'', raising) scenario_message None
      = Inl (Exception ''model unavailable'')"
    by (simp add: raising_def)
  have a: "\<forall>det\<in>set (detectors mixed_firewall).
      case snd det scenario_message None of Inl e \<Rightarrow> True | Inr r \<Rightarrow> well_typed r"
    by (simp add: mixed_firewall_def raising_def ml_manipulative_def benign_def eval_defs)
  note inst = detector_failure_is_isolated [of mixed_firewall "(''RuleBasedDetector'', raising)"
      scenario_message None "Exception ''model unavailable''" "''RuleBasedDetector''"
      "''model unavailable''" "0.75"]
  from inst [THEN conjunct1, rule_format, OF d m r]
    inst [THEN conjunct2, THEN conjunct2, THEN conjunct1, rule_format, OF d m r]
    inst [THEN conjunct2, THEN conjunct2, THEN conjunct2, THEN mp, OF a]
  show ?thesis by simp
qed

text \<open>
  C4. In a firewall that \<open>init\<close> built, whatever dictionary the detector registered as
  \<open>MLBasedDetector\<close> returns, its entry in the result dictionary is that dictionary with
  \<open>classification\<close> overwritten by \<open>neutral_ml_placeholder\<close>. Whatever the detector does
  (return a dictionary, return something else, raise), the decision loop passes over its
  entry, so the outcome of \<open>is_manipulative\<close> is the one the other entries alone give.
\<close>

theorem ml_classification_is_overwritten:
  assumes "init a (Inr ml) c e = Inr fw"
  shows "(ml msg hist = Inr (PDict d) \<longrightarrow>
           map_of (snd (analyze_conversation fw msg hist)) ''MLBasedDetector'' =
             Some (PDict (d(''classification'' \<mapsto> PStr ''neutral_ml_placeholder''))))
         \<and> (\<exists>r. map_of (snd (analyze_conversation fw msg hist)) ''MLBasedDetector'' = Some r
               \<and> snd (check_entry ''MLBasedDetector'' r thr) = Inr False)
         \<and> snd (is_manipulative fw msg hist thr) =
             snd (decision_loop (filter (\<lambda>(n, r). n \<noteq> ''MLBasedDetector'')
                    (snd (analyze_conversation fw msg hist))) thr)"
proof -
  from assms obtain f1 f3 f4 where
    ds: "detectors fw = [(''RuleBasedDetector'', f1), (''MLBasedDetector'', ml),
      (''EchoChamberDetector'', f3), (''InjectionDetector'', f4)]"
    by (auto simp: init_def split: sum.splits)
  define r1 where "r1 = snd (run_detector (''RuleBasedDetector'', f1) msg hist)"
  define r2 where "r2 = snd (run_detector (''MLBasedDetector'', ml) msg hist)"
  define r3 where "r3 = snd (run_detector (''EchoChamberDetector'', f3) msg hist)"
  define r4 where "r4 = snd (run_detector (''InjectionDetector'', f4) msg hist)"
  have res: "snd (analyze_conversation fw msg hist) =
      [(''RuleBasedDetector'', r1), (''MLBasedDetector'', r2),
       (''EchoChamberDetector'', r3), (''InjectionDetector'', r4)]"
    by (simp add: analyze_conversation_distinct ds r1_def r2_def r3_def r4_def)
  have look: "map_of (snd (analyze_conversation fw msg hist)) ''MLBasedDetector'' = Some r2"
    by (simp add: res)
  have skip: "snd (check_entry ''MLBasedDetector'' r2 thr) = Inr False"
    unfolding r2_def by (rule run_detector_ml) simp
  have over: "r2 = PDict (d(''classification'' \<mapsto> PStr ''neutral_ml_placeholder''))"
    if "ml msg hist = Inr (PDict d)"
    using that by (simp add: r2_def run_detector_ml_dict)
  have "snd (decision_loop ([(''RuleBasedDetector'', r1)] @ (''MLBasedDetector'', r2)
        # [(''EchoChamberDetector'', r3), (''InjectionDetector'', r4)]) thr) =
      snd (decision_loop ([(''RuleBasedDetector'', r1)]
        @ [(''EchoChamberDetector'', r3), (''InjectionDetector'', r4)]) thr)"
    by (rule decision_loop_skip [OF skip])
  then have "snd (is_manipulative fw msg hist thr) =
      snd (decision_loop (filter (\<lambda>(n, r). n \<noteq> ''MLBasedDetector'')
        (snd (analyze_conversation fw msg hist))) thr)"
    by (simp add: is_manipulative_snd res)
  with look skip over show ?thesis
    by simp
qed

theorem ml_classification_is_overwritten_witness:
  "map_of (snd (analyze_conversation scenario_firewall scenario_message None)) ''MLBasedDetector'' =
     Some (PDict [''classification'' \<mapsto> PStr ''neutral_ml_placeholder'',
                  ''ml_model_confidence'' \<mapsto> PFloat 0.99])
   \<and> snd (check_entry ''MLBasedDetector''
          (PDict [''classification'' \<mapsto> PStr ''neutral_ml_placeholder'',
                  ''ml_model_confidence'' \<mapsto> PFloat 0.99]) 0.75) = Inr False"
proof -
  have i: "init (Inr rule_based_hit) (Inr ml_manipulative) (Inr raising) (Inr benign)
      = Inr scenario_firewall"
    by (simp add: init_def scenario_firewall_def)
  have m: "ml_manipulative scenario_message None =
      Inr (PDict [''classification'' \<mapsto> PStr ''manipulative'',
                  ''ml_model_confidence'' \<mapsto> PFloat 0.99])"
    by (simp add: ml_manipulative_def)
  have u: "[''classification'' \<mapsto> PStr ''manipulative'', ''ml_model_confidence'' \<mapsto> PFloat 0.99]
      (''classification'' \<mapsto> PStr ''neutral_ml_placeholder'') =
      [''classification'' \<mapsto> PStr ''neutral_ml_placeholder'',
       ''ml_model_confidence'' \<mapsto> PFloat 0.99]"
    by (rule ext) simp
  note inst = ml_classification_is_overwritten [where msg = scenario_message and hist = None
      and thr = "0.75" and d = "[''classification'' \<mapsto> PStr ''manipulative'',
        ''ml_model_confidence'' \<mapsto> PFloat 0.99]", OF i]
  from inst [THEN conjunct1, rule_format, OF m]
  have look: "map_of (snd (analyze_conversation scenario_firewall scenario_message None))
      ''MLBasedDetector'' =
      Some (PDict [''classification'' \<mapsto> PStr ''neutral_ml_placeholder'',
                   ''ml_model_confidence'' \<mapsto> PFloat 0.99])"
    by (simp only: u)
  from inst [THEN conjunct2, THEN conjunct1] obtain r where
    "map_of (snd (analyze_conversation scenario_firewall scenario_message None))
      ''MLBasedDetector'' = Some r"
    and "snd (check_entry ''MLBasedDetector'' r 0.75) = Inr False"
    by blast
  with look show ?thesis
    by simp
qed

text \<open>
  C5, counterexample. The value \<open>is_manipulative\<close> returns does not identify the triggering
  analyzer: a call in which the rule-based detector triggers and a call in which the
  injection detector triggers return the same value, the bare boolean \<open>True\<close>.
\<close>

theorem decision_output_does_not_name_the_trigger:
  "triggering_analyzer (snd (analyze_conversation scenario_firewall scenario_message None)) 0.75
     = Some ''RuleBasedDetector''
   \<and> triggering_analyzer (snd (analyze_conversation injection_firewall scenario_message None)) 0.75
     = Some ''InjectionDetector''
   \<and> snd (is_manipulative scenario_firewall scenario_message None 0.75) = Inr True
   \<and> snd (is_manipulative injection_firewall scenario_message None 0.75) = Inr True
   \<and> snd (is_manipulative scenario_firewall scenario_message None 0.75) =
       snd (is_manipulative injection_firewall scenario_message None 0.75)"
  by (simp add: triggering_analyzer_def is_manipulative_def scenario_defs injection_firewall_def
      injection_hit_def check_entry_def flag_and_score_def dict_get_def eval_defs)

text \<open>
  C5, as amended. \<open>is_manipulative\<close> returns a boolean only: there is no decision record
  and no \<open>triggering_analyzer\<close> field. On a well-typed result dictionary, when some entry is
  flagged with its score at the threshold or above, it returns \<open>True\<close> and the last record
  it logs, the only one of its kind, names the triggering analyzer, the first qualifying one
  in registration order; when no entry qualifies it returns \<open>False\<close> and logs no such
  record.
\<close>

theorem trigger_is_logged_not_returned:
  assumes "list_all (\<lambda>(n, r). well_typed r) (snd (analyze_conversation fw msg hist))"
  shows "(triggering_analyzer (snd (analyze_conversation fw msg hist)) thr = Some n \<longrightarrow>
           snd (is_manipulative fw msg hist thr) = Inr True
           \<and> (\<exists>c s. last (fst (is_manipulative fw msg hist thr)) = FlaggedManipulative n c s thr
                  \<and> filter is_flag_record (fst (is_manipulative fw msg hist thr)) =
                      [FlaggedManipulative n c s thr]))
         \<and> (triggering_analyzer (snd (analyze_conversation fw msg hist)) thr = None \<longrightarrow>
           snd (is_manipulative fw msg hist thr) = Inr False
           \<and> filter is_flag_record (fst (is_manipulative fw msg hist thr)) = [])"
proof -
  define rs where "rs = snd (analyze_conversation fw msg hist)"
  have al: "filter is_flag_record (fst (analyze_conversation fw msg hist)) = []"
    using analyze_loop_logs [of "detectors fw" msg hist "[]" "[]"]
    by (simp add: analyze_conversation_def)
  from assms have "\<forall>e\<in>set rs. \<exists>b. snd (check_entry (fst e) (snd e) thr) = Inr b"
    using check_entry_well_typed by (auto simp: list_all_iff rs_def)
  note dl = decision_loop_trigger [OF this]
  show ?thesis
  proof (intro conjI impI)
    assume "triggering_analyzer (snd (analyze_conversation fw msg hist)) thr = Some n"
    then obtain r where "find (\<lambda>(n, r). snd (check_entry n r thr) = Inr True) rs = Some (n, r)"
      by (auto simp: triggering_analyzer_def rs_def)
    with dl obtain l c s where out: "snd (decision_loop rs thr) = Inr True"
      and l: "fst (decision_loop rs thr) = l @ [FlaggedManipulative n c s thr]"
        "filter is_flag_record l = []"
      by auto
    from out show "snd (is_manipulative fw msg hist thr) = Inr True"
      by (simp add: is_manipulative_snd rs_def)
    from l al
    have "last (fst (is_manipulative fw msg hist thr)) = FlaggedManipulative n c s thr
        \<and> filter is_flag_record (fst (is_manipulative fw msg hist thr)) =
            [FlaggedManipulative n c s thr]"
      by (simp add: is_manipulative_fst rs_def [symmetric])
    then show "\<exists>c s. last (fst (is_manipulative fw msg hist thr)) = FlaggedManipulative n c s thr
        \<and> filter is_flag_record (fst (is_manipulative fw msg hist thr)) =
            [FlaggedManipulative n c s thr]"
      by blast
  next
    assume "triggering_analyzer (snd (analyze_conversation fw msg hist)) thr = None"
    then have "find (\<lambda>(n, r). snd (check_entry n r thr) = Inr True) rs = None"
      by (simp add: triggering_analyzer_def rs_def)
    with dl have out: "snd (decision_loop rs thr) = Inr False"
      and l: "filter is_flag_record (fst (decision_loop rs thr)) = []"
      by simp_all
    from out show "snd (is_manipulative fw msg hist thr) = Inr False"
      by (simp add: is_manipulative_snd rs_def)
    from l al show "filter is_flag_record (fst (is_manipulative fw msg hist thr)) = []"
      by (simp add: is_manipulative_fst rs_def [symmetric])
  qed
qed

theorem trigger_is_logged_not_returned_witness:
  "snd (is_manipulative injection_firewall scenario_message None 0.75) = Inr True
   \<and> (\<exists>c s. last (fst (is_manipulative injection_firewall scenario_message None 0.75)) =
         FlaggedManipulative ''InjectionDetector'' c s 0.75)
   \<and> snd (is_manipulative injection_firewall scenario_message None 0.99) = Inr False
   \<and> filter is_flag_record (fst (is_manipulative injection_firewall scenario_message None 0.99)) = []"
proof -
  have wt: "list_all (\<lambda>(n, r). well_typed r)
      (snd (analyze_conversation injection_firewall scenario_message None))"
    by (simp add: injection_firewall_def injection_hit_def benign_def eval_defs)
  have t: "triggering_analyzer (snd (analyze_conversation injection_firewall scenario_message None))
      0.75 = Some ''InjectionDetector''"
    by (simp add: triggering_analyzer_def injection_firewall_def injection_hit_def benign_def
        check_entry_def flag_and_score_def dict_get_def eval_defs)
  have f: "triggering_analyzer (snd (analyze_conversation injection_firewall scenario_message None))
      0.99 = None"
    by (simp add: triggering_analyzer_def injection_firewall_def injection_hit_def benign_def
        check_entry_def flag_and_score_def dict_get_def eval_defs)
  from trigger_is_logged_not_returned [OF wt, of "0.75" "''InjectionDetector''",
      THEN conjunct1, rule_format, OF t]
    trigger_is_logged_not_returned [OF wt, of "0.99" "''InjectionDetector''",
      THEN conjunct2, rule_format, OF f]
  show ?thesis by blast
qed

text \<open>
  C6. An entry whose classification is \<open>error_detector_failed\<close> never makes
  \<open>is_manipulative\<close> return \<open>True\<close>: the loop goes on to the next item, for every detector
  name and threshold, so the outcome is the one the other entries give; when the entry also
  has an \<open>error\<close> field, as the placeholder has, the loop reports it and skips it. The entry
  stays in the result dictionary that \<open>analyze_conversation\<close> returns.
\<close>

theorem errored_entry_never_flags:
  assumes "d ''classification'' = Some (PStr ''error_detector_failed'')"
  shows "snd (check_entry n (PDict d) thr) = Inr False
    \<and> snd (decision_loop (pre @ (n, PDict d) # post) thr) = snd (decision_loop (pre @ post) thr)
    \<and> (d ''error'' = Some v \<longrightarrow> check_entry n (PDict d) thr = ([ReportedError n v], Inr False))
    \<and> (distinct (map fst (detectors fw)) \<longrightarrow> det \<in> set (detectors fw) \<longrightarrow>
        snd (run_detector det msg hist) = PDict d \<longrightarrow>
          (fst det, PDict d) \<in> set (snd (analyze_conversation fw msg hist)))"
proof -
  have skip: "snd (check_entry n (PDict d) thr) = Inr False"
    using classification_of_error [of d] assms
    by (simp add: check_entry_dict flag_error_label)
  have drop: "snd (decision_loop (pre @ (n, PDict d) # post) thr) =
      snd (decision_loop (pre @ post) thr)"
    by (rule decision_loop_skip [OF skip])
  have warn: "check_entry n (PDict d) thr = ([ReportedError n v], Inr False)"
    if "d ''error'' = Some v"
    using that assms by (simp add: check_entry_def dict_get_def)
  have kept: "(fst det, PDict d) \<in> set (snd (analyze_conversation fw msg hist))"
    if "distinct (map fst (detectors fw))" and "det \<in> set (detectors fw)"
      and "snd (run_detector det msg hist) = PDict d"
    using that by (force simp: analyze_conversation_distinct)
  from skip drop warn kept show ?thesis
    by blast
qed

theorem errored_entry_never_flags_witness:
  "snd (check_entry ''RuleBasedDetector''
     (PDict [''error'' \<mapsto> PStr ''model unavailable'',
             ''classification'' \<mapsto> PStr ''error_detector_failed'']) 0) = Inr False
   \<and> (''RuleBasedDetector'', PDict [''error'' \<mapsto> PStr ''model unavailable'',
             ''classification'' \<mapsto> PStr ''error_detector_failed''])
       \<in> set (snd (analyze_conversation mixed_firewall scenario_message None))"
proof -
  have c: "[''error'' \<mapsto> PStr ''model unavailable'',
      ''classification'' \<mapsto> PStr ''error_detector_failed''] ''classification'' =
      Some (PStr ''error_detector_failed'')"
    by simp
  have d: "distinct (map fst (detectors mixed_firewall))"
    by (simp add: mixed_firewall_def)
  have m: "(''RuleBasedDetector'', raising) \<in> set (detectors mixed_firewall)"
    by (simp add: mixed_firewall_def)
  have r: "snd (run_detector (''RuleBasedDetector'', raising) scenario_message None) =
      PDict [''error'' \<mapsto> PStr ''model unavailable'',
             ''classification'' \<mapsto> PStr ''error_detector_failed'']"
    by (simp add: run_detector_def raising_def error_placeholder_def)
  note inst = errored_entry_never_flags [where d = "[''error'' \<mapsto> PStr ''model unavailable'',
      ''classification'' \<mapsto> PStr ''error_detector_failed'']" and n = "''RuleBasedDetector''"
      and thr = 0 and fw = mixed_firewall and det = "(''RuleBasedDetector'', raising)"
      and msg = scenario_message and hist = None, OF c]
  from inst [THEN conjunct1]
    inst [THEN conjunct2, THEN conjunct2, THEN conjunct2, rule_format, OF d m r]
  show ?thesis by simp
qed

text \<open>
  C7, counterexample. The claim as stated, for any threshold, fails at threshold \<open>0\<close>: a
  rule-based result classified \<open>manipulative\<close> with no \<open>rule_based_probability\<close> field
  gets the score \<open>0\<close>, which reaches the threshold, and \<open>is_manipulative\<close> returns \<open>True\<close>.
\<close>

theorem absent_score_flags_at_zero_threshold:
  "[''classification'' \<mapsto> PStr ''manipulative''] ''rule_based_probability'' = None
   \<and> snd (check_entry ''RuleBasedDetector'' (PDict [''classification'' \<mapsto> PStr ''manipulative'']) 0)
       = Inr True
   \<and> snd (is_manipulative no_score_firewall scenario_message None 0) = Inr True"
  by (simp add: no_score_firewall_def rule_based_no_score_def benign_def is_manipulative_def
      check_entry_def flag_and_score_def dict_get_def eval_defs)

text \<open>
  C7, as amended. For an entry in which the authoritative score field of its kind is absent,
  the score used for thresholding is \<open>0\<close>. Such an entry makes the loop return \<open>True\<close>
  exactly when its classification matches the keyword policy of its kind and the threshold
  is at most \<open>0\<close>; for every threshold above \<open>0\<close> it never does.
\<close>

theorem absent_score_is_zero:
  assumes "score_field_absent n d"
  shows "snd (snd (flag_and_score n d c)) = PFloat 0
    \<and> (0 < thr \<longrightarrow> snd (check_entry n (PDict d) thr) \<noteq> Inr True)
    \<and> (classification_of d = Some c \<longrightarrow>
        snd (check_entry n (PDict d) thr) = Inr (fst (snd (flag_and_score n d c)) \<and> thr \<le> 0))"
proof -
  have z: "snd (snd (flag_and_score n d c')) = PFloat 0" for c'
    using assms by (simp add: score_field_absent_def flag_and_score_def dict_get_def split: if_splits)
  have eq: "snd (check_entry n (PDict d) thr) = Inr (fst (snd (flag_and_score n d c')) \<and> thr \<le> 0)"
    if "classification_of d = Some c'" for c'
    by (simp add: check_entry_dict [OF that] z)
  have "snd (check_entry n (PDict d) thr) \<noteq> Inr True" if "0 < thr"
  proof (cases "classification_of d")
    case None
    from check_entry_ill_typed [OF None, of n thr] show ?thesis by auto
  next
    case (Some c')
    with that show ?thesis by (simp add: eq)
  qed
  with z eq show ?thesis
    by blast
qed

theorem absent_score_is_zero_witness:
  "snd (check_entry ''RuleBasedDetector'' (PDict [''classification'' \<mapsto> PStr ''manipulative''])
      0.75) = Inr False
   \<and> snd (snd (flag_and_score ''RuleBasedDetector'' [''classification'' \<mapsto> PStr ''manipulative'']
      ''manipulative'')) = PFloat 0"
proof -
  have a: "score_field_absent ''RuleBasedDetector'' [''classification'' \<mapsto> PStr ''manipulative'']"
    by (simp add: score_field_absent_def)
  have c: "classification_of [''classification'' \<mapsto> PStr ''manipulative''] = Some ''manipulative''"
    by (simp add: eval_defs)
  note inst = absent_score_is_zero [OF a, of "''manipulative''" "0.75"]
  from inst [THEN conjunct1] inst [THEN conjunct2, THEN conjunct2, rule_format, OF c]
  show ?thesis by simp
qed

text \<open>
  C8. For an entry whose detector name is none of the four registered kinds the generic
  fallback applies: it is flagged if and only if its lower-cased classification contains
  \<open>manipulative\<close>, \<open>concern\<close>, or \<open>potential\<close> and not \<open>benign\<close>, and its score is the
  first present among the fields \<open>probability\<close>, \<open>confidence\<close>, \<open>score\<close>, else \<open>0\<close>. The entry
  makes the loop return \<open>True\<close> exactly when it is flagged and that score reaches the
  threshold.
\<close>

theorem unknown_kind_uses_generic_fallback:
  assumes "n \<notin> set registered_kinds"
  shows "flag_and_score n d c =
      ([UnhandledDetectorType n], spec_generic_flagged c,
       first_present d [''probability'', ''confidence'', ''score''])
    \<and> (classification_of d = Some c \<longrightarrow>
        snd (check_entry n (PDict d) thr) =
          (if spec_generic_flagged c
           then py_ge (first_present d [''probability'', ''confidence'', ''score'']) thr
           else Inr False))"
proof -
  from assms have fs: "flag_and_score n d c =
      ([UnhandledDetectorType n], spec_generic_flagged c,
       first_present d [''probability'', ''confidence'', ''score''])"
    by (simp add: registered_kinds_def flag_and_score_def spec_generic_flagged_def dict_get_def
        split: option.splits)
  then show ?thesis
    by (simp add: check_entry_dict)
qed

theorem unknown_kind_uses_generic_fallback_witness:
  "snd (check_entry ''ToxicityDetector''
      (PDict [''classification'' \<mapsto> PStr ''Potential_Threat'', ''confidence'' \<mapsto> PFloat 0.8,
              ''score'' \<mapsto> PFloat 0.1]) 0.75) = Inr True
   \<and> snd (check_entry ''ToxicityDetector''
      (PDict [''classification'' \<mapsto> PStr ''potential_but_benign'',
              ''confidence'' \<mapsto> PFloat 0.8]) 0.75) = Inr False"
proof -
  have k: "''ToxicityDetector'' \<notin> set registered_kinds"
    by (simp add: registered_kinds_def)
  have c1: "classification_of [''classification'' \<mapsto> PStr ''Potential_Threat'',
      ''confidence'' \<mapsto> PFloat 0.8, ''score'' \<mapsto> PFloat 0.1] = Some ''potential_threat''"
    by (simp add: eval_defs)
  have c2: "classification_of [''classification'' \<mapsto> PStr ''potential_but_benign'',
      ''confidence'' \<mapsto> PFloat 0.8] = Some ''potential_but_benign''"
    by (simp add: eval_defs)
  from unknown_kind_uses_generic_fallback [OF k, THEN conjunct2, rule_format, OF c1, of "0.75"]
    unknown_kind_uses_generic_fallback [OF k, THEN conjunct2, rule_format, OF c2, of "0.75"]
  show ?thesis
    by (simp add: spec_generic_flagged_def)
qed

text \<open>
  C9. When every registered detector raises, every entry of the result dictionary is the
  error placeholder and \<open>is_manipulative\<close> returns \<open>False\<close>: it neither raises nor
  flags, for every threshold.
\<close>

theorem all_detectors_fail_gives_false:
  assumes "\<forall>det\<in>set (detectors fw). isl (snd det msg hist)"
  shows "(\<forall>(n, r)\<in>set (snd (analyze_conversation fw msg hist)).
            \<exists>m. r = PDict [''error'' \<mapsto> PStr m,
                           ''classification'' \<mapsto> PStr ''error_detector_failed''])
         \<and> snd (is_manipulative fw msg hist thr) = Inr False"
proof -
  have ph: "\<exists>m. r = error_placeholder m"
    if "(n, r) \<in> set (snd (analyze_conversation fw msg hist))" for n r
  proof -
    from analysis_entries [OF that] obtain det where det: "det \<in> set (detectors fw)"
      and r: "r = snd (run_detector det msg hist)"
      by blast
    from assms det obtain e where "snd det msg hist = Inl e"
      by (auto simp: isl_def)
    then show ?thesis
      by (auto simp: r run_detector_raises)
  qed
  have "\<forall>x\<in>set (snd (analyze_conversation fw msg hist)).
      snd (check_entry (fst x) (snd x) thr) = Inr False"
  proof
    fix x assume "x \<in> set (snd (analyze_conversation fw msg hist))"
    then obtain m where "snd x = error_placeholder m"
      using ph [of "fst x" "snd x"] by auto
    then show "snd (check_entry (fst x) (snd x) thr) = Inr False"
      by (simp add: check_entry_placeholder)
  qed
  then have "snd (is_manipulative fw msg hist thr) = Inr False"
    unfolding is_manipulative_snd by (rule decision_loop_all_continue)
  with ph show ?thesis
    by (auto simp: error_placeholder_def)
qed

theorem all_detectors_fail_gives_false_witness:
  "snd (is_manipulative failing_firewall scenario_message None 0.75) = Inr False
   \<and> snd (analyze_conversation failing_firewall scenario_message None) =
       map (\<lambda>n. (n, PDict [''error'' \<mapsto> PStr ''model unavailable'',
                           ''classification'' \<mapsto> PStr ''error_detector_failed'']))
         [''RuleBasedDetector'', ''MLBasedDetector'', ''EchoChamberDetector'',
          ''InjectionDetector'']"
proof -
  have h: "\<forall>det\<in>set (detectors failing_firewall). isl (snd det scenario_message None)"
    by (simp add: failing_firewall_def raising_def)
  have "snd (analyze_conversation failing_firewall scenario_message None) =
       map (\<lambda>n. (n, PDict [''error'' \<mapsto> PStr ''model unavailable'',
                           ''classification'' \<mapsto> PStr ''error_detector_failed'']))
         [''RuleBasedDetector'', ''MLBasedDetector'', ''EchoChamberDetector'',
          ''InjectionDetector'']"
    by (simp add: failing_firewall_def raising_def analyze_conversation_def run_detector_def
        error_placeholder_def)
  with all_detectors_fail_gives_false [OF h, of "0.75"] show ?thesis
    by blast
qed

text \<open>
  C10. The score is used exactly as the detector returned it, with no clamping or
  validation: for an entry whose lower-cased classification matches the keyword policy of
  its kind and whose authoritative score field holds the number \<open>s\<close>, the score used for
  thresholding is \<open>s\<close> itself, and the loop returns \<open>True\<close> at this entry if and only if
  \<open>thr \<le> s\<close>, whatever the values of \<open>s\<close> and \<open>thr\<close> (above one, negative); otherwise it
  goes on to the next item.
\<close>

theorem score_is_used_unclamped:
  assumes "classification_of d = Some c" and "spec_keyword_match n c"
    and "returned_score n d = Some (PFloat s)"
  shows "snd (snd (flag_and_score n d c)) = PFloat s
    \<and> snd (check_entry n (PDict d) thr) = Inr (thr \<le> s)
    \<and> snd (decision_loop ((n, PDict d) # rest) thr) =
        (if thr \<le> s then Inr True else snd (decision_loop rest thr))"
proof -
  from flag_and_score_returned [OF assms(2,3)]
  have fs: "snd (flag_and_score n d c) = (True, PFloat s)" .
  with assms(1) have e: "snd (check_entry n (PDict d) thr) = Inr (thr \<le> s)"
    by (simp add: check_entry_dict)
  then have "snd (decision_loop ((n, PDict d) # rest) thr) =
      (if thr \<le> s then Inr True else snd (decision_loop rest thr))"
    by (cases "check_entry n (PDict d) thr") (auto split: prod.splits)
  with fs e show ?thesis
    by simp
qed

theorem score_is_used_unclamped_witness:
  "snd (check_entry ''EchoChamberDetector''
      (PDict [''classification'' \<mapsto> PStr ''echo_chamber_detected'',
              ''echo_chamber_probability'' \<mapsto> PFloat 1.5]) 1.2) = Inr True
   \<and> snd (check_entry ''EchoChamberDetector''
      (PDict [''classification'' \<mapsto> PStr ''echo_chamber_detected'',
              ''echo_chamber_probability'' \<mapsto> PFloat (- 0.2)]) (- 0.1)) = Inr False
   \<and> snd (check_entry ''ToxicityDetector''
      (PDict [''classification'' \<mapsto> PStr ''manipulative'',
              ''confidence'' \<mapsto> PFloat 7, ''score'' \<mapsto> PFloat 0.1]) 6.5) = Inr True"
proof -
  have c1: "classification_of [''classification'' \<mapsto> PStr ''echo_chamber_detected'',
      ''echo_chamber_probability'' \<mapsto> PFloat 1.5] = Some ''echo_chamber_detected''"
    by (simp add: eval_defs)
  have r1: "returned_score ''EchoChamberDetector'' [''classification'' \<mapsto> PStr ''echo_chamber_detected'',
      ''echo_chamber_probability'' \<mapsto> PFloat 1.5] = Some (PFloat 1.5)"
    by (simp add: returned_score_def)
  have c2: "classification_of [''classification'' \<mapsto> PStr ''echo_chamber_detected'',
      ''echo_chamber_probability'' \<mapsto> PFloat (- 0.2)] = Some ''echo_chamber_detected''"
    by (simp add: eval_defs)
  have r2: "returned_score ''EchoChamberDetector'' [''classification'' \<mapsto> PStr ''echo_chamber_detected'',
      ''echo_chamber_probability'' \<mapsto> PFloat (- 0.2)] = Some (PFloat (- 0.2))"
    by (simp add: returned_score_def)
  have k: "spec_keyword_match ''EchoChamberDetector'' ''echo_chamber_detected''"
    by (simp add: spec_keyword_match_def)
  have c3: "classification_of [''classification'' \<mapsto> PStr ''manipulative'',
      ''confidence'' \<mapsto> PFloat 7, ''score'' \<mapsto> PFloat 0.1] = Some ''manipulative''"
    by (simp add: eval_defs)
  have r3: "returned_score ''ToxicityDetector'' [''classification'' \<mapsto> PStr ''manipulative'',
      ''confidence'' \<mapsto> PFloat 7, ''score'' \<mapsto> PFloat 0.1] = Some (PFloat 7)"
    by (simp add: returned_score_def)
  have k3: "spec_keyword_match ''ToxicityDetector'' ''manipulative''"
    by (simp add: spec_keyword_match_def spec_generic_flagged_def)
  from score_is_used_unclamped [OF c1 k r1, THEN conjunct2, THEN conjunct1, of "1.2"]
    score_is_used_unclamped [OF c2 k r2, THEN conjunct2, THEN conjunct1, of "- 0.1"]
    score_is_used_unclamped [OF c3 k3 r3, THEN conjunct2, THEN conjunct1, of "6.5"]
  show ?thesis by simp
qed

end
